theory Spec2Isabelle
  imports Main "HOL-Library.Char_ord" "HOL-Library.List_Lexorder" "HOL-Library.Multiset"
    "HOL-Library.Product_Lexorder"
begin

section \<open>Syntax tree, as far as the ordering code reads it\<close>

text \<open>
  Go strings are byte strings; \<^typ>\<open>string\<close> is a list of 8-bit characters, and with
  \<open>Char_ord\<close> and \<open>List_Lexorder\<close> the order \<open><\<close> on it is the bytewise
  lexicographic order of Go's string comparison.

  Of an expression only the shapes that \<open>fieldListName\<close> and \<open>less\<close> distinguish are kept.
  The parser builds the operand of a selector in a type name from an identifier, so
  \<open>SelectorExpr\<close> carries the two identifier names; \<open>Ident.String()\<close> is the name
  (the decorator is used without import resolution, so \<open>Path\<close> is empty).
\<close>

datatype expr =
    Ident string
  | StarExpr expr
  | SelectorExpr string string
  | OtherExpr

datatype field = Field (Names: "string list") (Type: expr)

datatype token = token_PACKAGE | token_IMPORT | token_TYPE | token_CONST | token_VAR

text \<open>
  A declaration: \<open>FuncDecl recv name\<close> with \<open>recv = None\<close> for a nil receiver list,
  \<open>GenDecl tok specs\<close> with the names of the specs, and \<open>BadDecl\<close>.
\<close>

datatype decl =
    FuncDecl "field list option" string
  | GenDecl token "string list"
  | BadDecl

datatype panic = TooMany | TypePanic | IndexOutOfRange

type_synonym 'a result = "panic + 'a"

definition bind :: "'a result \<Rightarrow> ('a \<Rightarrow> 'b result) \<Rightarrow> 'b result" where
  "bind m f = (case m of Inl e \<Rightarrow> Inl e | Inr v \<Rightarrow> f v)"

section \<open>Name keys\<close>

definition magicTypeMarker :: string where
  "magicTypeMarker = ''______''"

text \<open>
  \<open>firstUpper\<close> tests the first rune with \<open>unicode.IsUpper\<close>. For an ASCII first byte that
  is the range \<open>A\<close> to \<open>Z\<close>; for a multi-byte rune it is the Unicode table of the standard
  library, taken here as the parameter \<open>up\<close> (applied to the name, whose first rune it decodes).
\<close>

definition firstUpper :: "(string \<Rightarrow> bool) \<Rightarrow> string \<Rightarrow> bool" where
  "firstUpper up name = (case name of
      [] \<Rightarrow> False
    | c # _ \<Rightarrow> if (of_char c :: nat) < 128 then CHR ''A'' \<le> c \<and> c \<le> CHR ''Z'' else up name)"

definition asciiOnly :: "string \<Rightarrow> bool" where
  "asciiOnly name = False"

definition HasPrefix :: "string \<Rightarrow> string \<Rightarrow> bool" where
  "HasPrefix s p = (take (length p) s = p)"

definition TrimPrefix :: "string \<Rightarrow> string \<Rightarrow> string" where
  "TrimPrefix s p = (if HasPrefix s p then drop (length p) s else s)"

text \<open>\<open>strings.Split(name, ".")\<close>: the pieces between the dots, one more than there are dots.\<close>

fun Split :: "string \<Rightarrow> string list" where
  "Split [] = [[]]"
| "Split (c # cs) = (if c = CHR ''.'' then [] # Split cs
     else (case Split cs of [] \<Rightarrow> [[c]] | p # ps \<Rightarrow> (c # p) # ps))"

definition splitOnDot :: "string \<Rightarrow> (string \<times> string) result" where
  "splitOnDot name = (let parts = Split name in
     if length parts > 2 then Inl TooMany
     else if length parts = 1 then Inr ('''', name)
     else Inr (parts ! 0, parts ! 1))"

definition weightAdjustment :: "(string \<Rightarrow> bool) \<Rightarrow> string \<Rightarrow> int" where
  "weightAdjustment up name =
     (if name = magicTypeMarker then - 5 else 0)
   + (if firstUpper up name then - 2 else 0)
   + (if HasPrefix name ''New'' then - 1 else 0)"

definition commonPrefixes :: "string list" where
  "commonPrefixes = [''Is'', ''Has'', ''Get'', ''All'', ''Create'', ''New'', ''Err'', ''Error'',
     ''Init'', ''Find'', ''Set'', ''Render'']"

text \<open>\<open>strings.ToLower\<close>, which on the ASCII prefixes above maps \<open>A\<close>..\<open>Z\<close> to \<open>a\<close>..\<open>z\<close>.\<close>

definition lowerChar :: "char \<Rightarrow> char" where
  "lowerChar c = (if CHR ''A'' \<le> c \<and> c \<le> CHR ''Z'' then char_of (of_char c + (32::nat)) else c)"

definition ToLower :: "string \<Rightarrow> string" where
  "ToLower s = map lowerChar s"

text \<open>The loop of \<open>trimCommonPrefix\<close> over the remaining prefixes; the pair is returned
  in the order of the source: the prefix first, the trimmed name second.\<close>

fun trimLoop :: "string list \<Rightarrow> string \<Rightarrow> string \<times> string" where
  "trimLoop [] s = ('''', s)"
| "trimLoop (p # ps) s =
     (if HasPrefix s p then (p, TrimPrefix s p)
      else if HasPrefix s (ToLower p) then (p, TrimPrefix s (ToLower p))
      else trimLoop ps s)"

definition trimCommonPrefix :: "string \<Rightarrow> string \<times> string" where
  "trimCommonPrefix s = trimLoop commonPrefixes s"

text \<open>
  \<open>lesss\<close>. The two results of \<open>trimCommonPrefix\<close> are bound as the source binds them:
  \<open>s1name, s1prefix = trimCommonPrefix(s1name)\<close>, so \<open>s1name\<close> receives the first
  component and \<open>s1prefix\<close> the second.
\<close>

definition lesss :: "(string \<Rightarrow> bool) \<Rightarrow> string \<Rightarrow> string \<Rightarrow> bool result" where
  "lesss up s1 s2 =
     bind (splitOnDot s1) (\<lambda>(s1r, s1name).
     bind (splitOnDot s2) (\<lambda>(s2r, s2name).
       if s1r \<noteq> s2r then Inr (s1r < s2r)
       else let s1w = 100 + weightAdjustment up s1name;
                s2w = 100 + weightAdjustment up s2name in
         if s1w \<noteq> s2w then Inr (s1w < s2w)
         else let (s1name', s1prefix) = trimCommonPrefix s1name;
                  (s2name', s2prefix) = trimCommonPrefix s2name in
           if s1prefix \<noteq> '''' \<and> s2prefix \<noteq> '''' then Inr (s1prefix < s2prefix)
           else Inr (s1name' < s2name')))"

definition strf :: "expr \<Rightarrow> string result" where
  "strf e = (case e of
      SelectorExpr x sel \<Rightarrow> Inr (x @ ''.'' @ sel)
    | Ident n \<Rightarrow> Inr n
    | _ \<Rightarrow> Inl TypePanic)"

definition less :: "(string \<Rightarrow> bool) \<Rightarrow> expr \<Rightarrow> expr \<Rightarrow> bool result" where
  "less up s t = bind (strf s) (\<lambda>a. bind (strf t) (\<lambda>b. lesss up a b))"

definition lessStringers :: "(string \<Rightarrow> bool) \<Rightarrow> string \<Rightarrow> string \<Rightarrow> bool result" where
  "lessStringers up s1 s2 = lesss up s1 s2"

section \<open>Declaration keys\<close>

definition preserveOrder :: "decl \<Rightarrow> bool" where
  "preserveOrder d = (case d of GenDecl tok _ \<Rightarrow> tok = token_PACKAGE \<or> tok = token_IMPORT | _ \<Rightarrow> False)"

fun fieldName :: "field \<Rightarrow> string" where
  "fieldName (Field _ (StarExpr (Ident n))) = n"
| "fieldName (Field _ (Ident n)) = n"
| "fieldName _ = ''''"

definition fieldListName :: "field list option \<Rightarrow> string" where
  "fieldListName l = (case l of None \<Rightarrow> '''' | Some fs \<Rightarrow> concat (map fieldName fs))"

definition funcWeight :: int where "funcWeight = 200"
definition typeWeight :: int where "typeWeight = 100"
definition constructorFuncWeight :: int where "constructorFuncWeight = 50"
definition exportedFuncWeight :: int where "exportedFuncWeight = 30"
definition mainFuncWeight :: int where "mainFuncWeight = 10"

definition funcName :: "(string \<Rightarrow> bool) \<Rightarrow> decl \<Rightarrow> string \<times> int" where
  "funcName up d = (case d of
      FuncDecl recv name \<Rightarrow>
        (let fr = fieldListName recv in
         if fr = '''' then
           (if name = ''main'' then (name, mainFuncWeight)
            else if HasPrefix name ''new'' then (name, constructorFuncWeight)
            else if firstUpper up name then
              (name, if HasPrefix name ''New'' then exportedFuncWeight - 1 else exportedFuncWeight)
            else (name, funcWeight))
         else (fr @ ''.'' @ name, typeWeight))
    | _ \<Rightarrow> ('''', - 1))"

text \<open>\<open>m.Specs[0]\<close> panics with an index error on a declaration without specs.\<close>

definition genName :: "decl \<Rightarrow> (string \<times> int) result" where
  "genName d = (case d of
      GenDecl tok specs \<Rightarrow>
        (if tok = token_TYPE then
           (case specs of [] \<Rightarrow> Inl IndexOutOfRange
            | n # _ \<Rightarrow> Inr (n @ ''.'' @ magicTypeMarker, typeWeight))
         else Inr ('''', - 1))
    | _ \<Rightarrow> Inr ('''', - 1))"

definition name :: "(string \<Rightarrow> bool) \<Rightarrow> decl \<Rightarrow> (string \<times> int) result" where
  "name up d = (let (s, weight) = funcName up d in
     if weight \<noteq> - 1 then Inr (s, weight) else genName d)"

section \<open>The comparators handed to the sort\<close>

text \<open>
  Both closures read the two entries at the positions \<open>i\<close>, \<open>j\<close> they are called with from
  the slice as it is at that moment.
\<close>

definition declLess :: "(string \<Rightarrow> bool) \<Rightarrow> decl list \<Rightarrow> nat \<Rightarrow> nat \<Rightarrow> bool result" where
  "declLess up decls i j = (let di = decls ! i; dj = decls ! j in
     if preserveOrder di \<or> preserveOrder dj then Inr (i < j)
     else bind (name up di) (\<lambda>(si, weighti).
          bind (name up dj) (\<lambda>(sj, weightj).
            if weighti = - 1 \<and> weightj = - 1 then Inr (i < j)
            else if weighti \<noteq> weightj then Inr (weighti < weightj)
            else lesss up si sj)))"

definition fieldLess :: "(string \<Rightarrow> bool) \<Rightarrow> field list \<Rightarrow> nat \<Rightarrow> nat \<Rightarrow> bool result" where
  "fieldLess up fields i j = (let fi = fields ! i; fj = fields ! j;
       ni = length (Names fi); nj = length (Names fj) in
     if ni = 0 \<and> nj = 0 then less up (Type fi) (Type fj)
     else if ni = 0 then Inr True
     else if nj = 0 then Inr False
     else lessStringers up (Names fi ! 0) (Names fj ! 0))"

section \<open>The stable sort\<close>

text \<open>
  \<open>sort.SliceStable\<close> belongs to Go's standard library, not to this program; the model
  follows the library's \<open>stable_func\<close> and its helpers (\<open>insertionSort_func\<close>,
  \<open>symMerge_func\<close>, \<open>rotate_func\<close>, \<open>swapRange_func\<close>). The slice is a list, a swap
  exchanges two of its entries, and the comparator is called with two positions of the slice as it
  is at that moment; a panic of the comparator ends the sort. Positions are natural numbers: on
  the calls that \<open>stable_func\<close> makes every subtraction below takes a smaller position from a
  larger one, and \<open>int(uint(i+j) >> 1)\<close> is \<open>(i + j) div 2\<close>.
\<close>

definition swap :: "'a list \<Rightarrow> nat \<Rightarrow> nat \<Rightarrow> 'a list" where
  "swap xs i j = xs[i := xs ! j, j := xs ! i]"

text \<open>\<open>insertionSort_func\<close>: for \<open>i\<close> from \<open>a + 1\<close> below \<open>b\<close>, the entry at \<open>i\<close> is
  swapped downwards while \<open>j > a\<close> and \<open>Less(j, j - 1)\<close>.\<close>

fun sink :: "('a list \<Rightarrow> nat \<Rightarrow> nat \<Rightarrow> bool result) \<Rightarrow> nat \<Rightarrow> 'a list \<Rightarrow> nat \<Rightarrow> 'a list result" where
  "sink lt a xs 0 = Inr xs"
| "sink lt a xs (Suc j) =
     (if Suc j > a then
        bind (lt xs (Suc j) j) (\<lambda>b. if b then sink lt a (swap xs (Suc j) j) j else Inr xs)
      else Inr xs)"

fun insertionLoop :: "('a list \<Rightarrow> nat \<Rightarrow> nat \<Rightarrow> bool result) \<Rightarrow> nat \<Rightarrow> 'a list \<Rightarrow> nat list \<Rightarrow> 'a list result" where
  "insertionLoop lt a xs [] = Inr xs"
| "insertionLoop lt a xs (i # is) = bind (sink lt a xs i) (\<lambda>ys. insertionLoop lt a ys is)"

definition insertionSort :: "('a list \<Rightarrow> nat \<Rightarrow> nat \<Rightarrow> bool result) \<Rightarrow> 'a list \<Rightarrow> nat \<Rightarrow> nat \<Rightarrow> 'a list result" where
  "insertionSort lt xs a b = insertionLoop lt a xs [Suc a ..< b]"

text \<open>\<open>swapRange_func\<close> and \<open>rotate_func\<close>. The loop of \<open>rotate_func\<close> runs while
  \<open>i \<noteq> j\<close>; it is entered with \<open>i\<close> and \<open>j\<close> positive (the caller tests
  \<open>start < m\<close> and \<open>m < end\<close>), and on other arguments, where the library's loop would not
  end, the model's loop is not entered.\<close>

definition swapRange :: "'a list \<Rightarrow> nat \<Rightarrow> nat \<Rightarrow> nat \<Rightarrow> 'a list" where
  "swapRange xs a b n = fold (\<lambda>i ys. swap ys (a + i) (b + i)) [0 ..< n] xs"

function rotateLoop :: "'a list \<Rightarrow> nat \<Rightarrow> nat \<Rightarrow> nat \<Rightarrow> 'a list" where
  "rotateLoop xs m i j =
     (if i \<noteq> j \<and> 0 < i \<and> 0 < j then
        (if i > j then rotateLoop (swapRange xs (m - i) m j) m (i - j) j
         else rotateLoop (swapRange xs (m - i) (m + j - i) i) m i (j - i))
      else swapRange xs (m - i) m i)"
  by pat_completeness auto
termination
  by (relation "measure (\<lambda>(xs, m, i, j). i + j)") auto

definition rotate :: "'a list \<Rightarrow> nat \<Rightarrow> nat \<Rightarrow> nat \<Rightarrow> 'a list" where
  "rotate xs a m b = rotateLoop xs m (m - a) (b - m)"

text \<open>The three binary searches of \<open>symMerge_func\<close>: for a single entry at \<open>a\<close> against
  \<open>data[m:b]\<close>, for a single entry at \<open>m\<close> against \<open>data[a:m]\<close>, and the symmetric search
  of the general case.\<close>

function searchHigh :: "('a list \<Rightarrow> nat \<Rightarrow> nat \<Rightarrow> bool result) \<Rightarrow> 'a list \<Rightarrow> nat \<Rightarrow> nat \<Rightarrow> nat \<Rightarrow> nat result" where
  "searchHigh lt xs a i j =
     (if i < j then
        (let h = (i + j) div 2 in
         case lt xs h a of
           Inl e \<Rightarrow> Inl e
         | Inr t \<Rightarrow> if t then searchHigh lt xs a (h + 1) j else searchHigh lt xs a i h)
      else Inr i)"
  by pat_completeness auto
termination
  by (relation "measure (\<lambda>(lt, xs, a, i, j). j - i)") auto

function searchLow :: "('a list \<Rightarrow> nat \<Rightarrow> nat \<Rightarrow> bool result) \<Rightarrow> 'a list \<Rightarrow> nat \<Rightarrow> nat \<Rightarrow> nat \<Rightarrow> nat result" where
  "searchLow lt xs m i j =
     (if i < j then
        (let h = (i + j) div 2 in
         case lt xs m h of
           Inl e \<Rightarrow> Inl e
         | Inr t \<Rightarrow> if \<not> t then searchLow lt xs m (h + 1) j else searchLow lt xs m i h)
      else Inr i)"
  by pat_completeness auto
termination
  by (relation "measure (\<lambda>(lt, xs, m, i, j). j - i)") auto

function searchSym :: "('a list \<Rightarrow> nat \<Rightarrow> nat \<Rightarrow> bool result) \<Rightarrow> 'a list \<Rightarrow> nat \<Rightarrow> nat \<Rightarrow> nat \<Rightarrow> nat result" where
  "searchSym lt xs p start r =
     (if start < r then
        (let c = (start + r) div 2 in
         case lt xs (p - c) c of
           Inl e \<Rightarrow> Inl e
         | Inr t \<Rightarrow> if \<not> t then searchSym lt xs p (c + 1) r else searchSym lt xs p start c)
      else Inr start)"
  by pat_completeness auto
termination
  by (relation "measure (\<lambda>(lt, xs, p, start, r). r - start)") auto

text \<open>The two loops that move a single entry to its place: \<open>for k := a; k < i-1; k++\<close>
  swapping \<open>k\<close> with \<open>k + 1\<close>, and \<open>for k := m; k > i; k--\<close> swapping \<open>k\<close> with
  \<open>k - 1\<close>.\<close>

definition shiftUp :: "'a list \<Rightarrow> nat \<Rightarrow> nat \<Rightarrow> 'a list" where
  "shiftUp xs a i = fold (\<lambda>k ys. swap ys k (k + 1)) [a ..< i - 1] xs"

definition shiftDown :: "'a list \<Rightarrow> nat \<Rightarrow> nat \<Rightarrow> 'a list" where
  "shiftDown xs m i = fold (\<lambda>k ys. swap ys k (k - 1)) (rev [Suc i ..< Suc m]) xs"

function symMerge :: "('a list \<Rightarrow> nat \<Rightarrow> nat \<Rightarrow> bool result) \<Rightarrow> 'a list \<Rightarrow> nat \<Rightarrow> nat \<Rightarrow> nat \<Rightarrow> 'a list result" where
  "symMerge lt xs a m b =
     (if m - a = 1 then bind (searchHigh lt xs a m b) (\<lambda>i. Inr (shiftUp xs a i))
      else if b - m = 1 then bind (searchLow lt xs m a m) (\<lambda>i. Inr (shiftDown xs m i))
      else
        (let mid = (a + b) div 2; n = mid + m;
             start0 = (if m > mid then n - b else a);
             r = (if m > mid then mid else m);
             p = n - 1
         in bind (searchSym lt xs p start0 r) (\<lambda>start.
              let e = n - start;
                  xs1 = (if start < m \<and> m < e then rotate xs start m e else xs)
              in bind (if a < start \<and> start < mid then symMerge lt xs1 a start mid else Inr xs1)
                   (\<lambda>xs2. if mid < e \<and> e < b then symMerge lt xs2 mid e b else Inr xs2))))"
  by pat_completeness auto
termination
proof (relation "measure (\<lambda>(lt, xs, a, m, b). b - a)", goal_cases)
  case 1
  show ?case by simp
next
  case (2 lt xs a m b mid n start0 r p start e xs1)
  then have "a < mid" "mid = (a + b) div 2" by simp_all
  moreover have "2 * ((a + b) div 2) \<le> a + b" by simp
  ultimately show ?case by simp
next
  case (3 lt xs a m b mid n start0 r p start e xs1 xs2)
  then have "mid < e" "e < b" "mid = (a + b) div 2" by simp_all
  moreover have "a + b < 2 * ((a + b) div 2) + 2" by presburger
  ultimately show ?case by simp
qed

text \<open>\<open>stable_func\<close>: insertion sort on blocks of \<open>blockSize = 20\<close> entries, then passes
  that merge neighbouring blocks, doubling the block size, while \<open>blockSize < n\<close>.\<close>

function blocks :: "('a list \<Rightarrow> nat \<Rightarrow> nat \<Rightarrow> bool result) \<Rightarrow> 'a list \<Rightarrow> nat \<Rightarrow> nat \<Rightarrow> nat \<Rightarrow> 'a list result" where
  "blocks lt xs a n blockSize =
     (if a + blockSize \<le> n \<and> 0 < blockSize then
        bind (insertionSort lt xs a (a + blockSize)) (\<lambda>ys. blocks lt ys (a + blockSize) n blockSize)
      else insertionSort lt xs a n)"
  by pat_completeness auto
termination
  by (relation "measure (\<lambda>(lt, xs, a, n, blockSize). n - a)") auto

function mergeBlocks :: "('a list \<Rightarrow> nat \<Rightarrow> nat \<Rightarrow> bool result) \<Rightarrow> 'a list \<Rightarrow> nat \<Rightarrow> nat \<Rightarrow> nat \<Rightarrow> 'a list result" where
  "mergeBlocks lt xs a n blockSize =
     (if a + 2 * blockSize \<le> n \<and> 0 < blockSize then
        bind (symMerge lt xs a (a + blockSize) (a + 2 * blockSize))
          (\<lambda>ys. mergeBlocks lt ys (a + 2 * blockSize) n blockSize)
      else if a + blockSize < n then symMerge lt xs a (a + blockSize) n
      else Inr xs)"
  by pat_completeness auto
termination
  by (relation "measure (\<lambda>(lt, xs, a, n, blockSize). n - a)") auto

function passes :: "('a list \<Rightarrow> nat \<Rightarrow> nat \<Rightarrow> bool result) \<Rightarrow> 'a list \<Rightarrow> nat \<Rightarrow> nat \<Rightarrow> 'a list result" where
  "passes lt xs n blockSize =
     (if blockSize < n \<and> 0 < blockSize then
        bind (mergeBlocks lt xs 0 n blockSize) (\<lambda>ys. passes lt ys n (2 * blockSize))
      else Inr xs)"
  by pat_completeness auto
termination
  by (relation "measure (\<lambda>(lt, xs, n, blockSize). n - blockSize)") auto

declare rotateLoop.simps [simp del] searchHigh.simps [simp del] searchLow.simps [simp del]
  searchSym.simps [simp del] symMerge.simps [simp del] blocks.simps [simp del]
  mergeBlocks.simps [simp del] passes.simps [simp del]

definition stable :: "('a list \<Rightarrow> nat \<Rightarrow> nat \<Rightarrow> bool result) \<Rightarrow> 'a list \<Rightarrow> nat \<Rightarrow> 'a list result" where
  "stable lt xs n = bind (blocks lt xs 0 n 20) (\<lambda>ys. passes lt ys n 20)"

definition SliceStable :: "('a list \<Rightarrow> nat \<Rightarrow> nat \<Rightarrow> bool result) \<Rightarrow> 'a list \<Rightarrow> 'a list result" where
  "SliceStable lt xs = stable lt xs (length xs)"

definition sortDecls :: "(string \<Rightarrow> bool) \<Rightarrow> decl list \<Rightarrow> decl list result" where
  "sortDecls up decls = SliceStable (declLess up) decls"

definition sortFieldList :: "(string \<Rightarrow> bool) \<Rightarrow> field list \<Rightarrow> field list result" where
  "sortFieldList up fields = SliceStable (fieldLess up) fields"

section \<open>Auxiliary notions for the proofs\<close>

text \<open>
  The sort only ever asks whether the entry at a later position is less than the entry just
  before it. \<open>later lt x y\<close> is the comparator's answer to that question for a later entry
  \<open>x\<close> and an earlier entry \<open>y\<close>, read off the two-entry slice \<open>[y, x]\<close>.
  \<open>tied lt x y\<close> says that in the slice \<open>[x, y]\<close> neither entry compares less than the other.
\<close>

definition later :: "('a list \<Rightarrow> nat \<Rightarrow> nat \<Rightarrow> bool result) \<Rightarrow> 'a \<Rightarrow> 'a \<Rightarrow> bool result" where
  "later lt x y = lt [y, x] 1 0"

definition tied :: "('a list \<Rightarrow> nat \<Rightarrow> nat \<Rightarrow> bool result) \<Rightarrow> 'a \<Rightarrow> 'a \<Rightarrow> bool" where
  "tied lt x y \<longleftrightarrow> lt [x, y] 0 1 = Inr False \<and> lt [x, y] 1 0 = Inr False"

text \<open>
  Insertion on lists, for the proofs: \<open>ins c x ys\<close> inserts \<open>x\<close> into the entries before
  it, given nearest first in \<open>ys\<close>, and \<open>isort\<close> inserts one entry after the other.
\<close>

fun ins :: "('a \<Rightarrow> 'a \<Rightarrow> bool result) \<Rightarrow> 'a \<Rightarrow> 'a list \<Rightarrow> 'a list result" where
  "ins c x [] = Inr [x]"
| "ins c x (y # ys) =
     bind (c x y) (\<lambda>b. if b then bind (ins c x ys) (\<lambda>r. Inr (y # r)) else Inr (x # y # ys))"

fun isort :: "('a \<Rightarrow> 'a \<Rightarrow> bool result) \<Rightarrow> 'a list \<Rightarrow> 'a list \<Rightarrow> 'a list result" where
  "isort c acc [] = Inr acc"
| "isort c acc (x # xs) = bind (ins c x acc) (\<lambda>acc'. isort c acc' xs)"

text \<open>The two shapes of a type expression that \<open>less\<close> can print.\<close>

definition plain :: "expr \<Rightarrow> bool" where
  "plain e = (case e of Ident _ \<Rightarrow> True | SelectorExpr _ _ \<Rightarrow> True | _ \<Rightarrow> False)"










section \<open>Splitting a key at its dot\<close>

lemma Split_nonempty: "Split s \<noteq> []"
  by (induction s) (auto split: list.splits)

lemma length_Split: "length (Split s) = Suc (count_list s (CHR ''.''))"
  by (induction s) (auto split: list.splits simp: Split_nonempty)

lemma Split_no_dot: "CHR ''.'' \<notin> set s \<Longrightarrow> Split s = [s]"
  by (induction s) auto

lemma Split_first_dot: "CHR ''.'' \<notin> set r \<Longrightarrow> Split (r @ CHR ''.'' # n) = r # Split n"
  by (induction r) auto

lemma splitOnDot_no_dot: "CHR ''.'' \<notin> set s \<Longrightarrow> splitOnDot s = Inr ('''', s)"
  by (simp add: splitOnDot_def Split_no_dot)

lemma splitOnDot_one_dot:
  "CHR ''.'' \<notin> set r \<Longrightarrow> CHR ''.'' \<notin> set n \<Longrightarrow> splitOnDot (r @ CHR ''.'' # n) = Inr (r, n)"
  by (simp add: splitOnDot_def Split_first_dot Split_no_dot)

lemma one_dot_decomp:
  "count_list s (CHR ''.'') = 1 \<Longrightarrow>
     \<exists>r n. s = r @ CHR ''.'' # n \<and> CHR ''.'' \<notin> set r \<and> CHR ''.'' \<notin> set n"
proof (induction s)
  case Nil
  then show ?case by simp
next
  case (Cons c cs)
  show ?case
  proof (cases "c = CHR ''.''")
    case True
    with Cons.prems have "count_list cs (CHR ''.'') = 0" by simp
    then have "CHR ''.'' \<notin> set cs" by (simp add: count_list_0_iff)
    with True have "c # cs = [] @ CHR ''.'' # cs \<and> CHR ''.'' \<notin> set [] \<and> CHR ''.'' \<notin> set cs"
      by simp
    then show ?thesis by blast
  next
    case False
    with Cons.prems have "count_list cs (CHR ''.'') = 1" by simp
    from Cons.IH [OF this] obtain r n
      where "cs = r @ CHR ''.'' # n" "CHR ''.'' \<notin> set r" "CHR ''.'' \<notin> set n" by blast
    with False have "c # cs = (c # r) @ CHR ''.'' # n \<and> CHR ''.'' \<notin> set (c # r) \<and> CHR ''.'' \<notin> set n"
      by simp
    then show ?thesis by blast
  qed
qed

lemma splitOnDot_panic_iff: "splitOnDot s = Inl e \<longleftrightarrow> e = TooMany \<and> 2 \<le> count_list s (CHR ''.'')"
  by (auto simp: splitOnDot_def Let_def length_Split)

section \<open>Scenarios\<close>

text \<open>
  C1 (Scenario A): the declarations \<open>func doStuff\<close>, \<open>type Foo\<close>, \<open>func newFoo\<close>,
  the method \<open>Bar\<close> with receiver \<open>Foo\<close> and \<open>func main\<close>, in this order, are sorted to
  \<open>main\<close>, \<open>newFoo\<close>, \<open>type Foo\<close>, \<open>Foo.Bar\<close>, \<open>doStuff\<close>; the keys carry the
  weights 10, 50, 100, 100 and 200.
\<close>

theorem C1_scenario_A:
  "sortDecls up [FuncDecl None ''doStuff'', GenDecl token_TYPE [''Foo''], FuncDecl None ''newFoo'',
      FuncDecl (Some [Field [''f''] (Ident ''Foo'')]) ''Bar'', FuncDecl None ''main'']
   = Inr [FuncDecl None ''main'', FuncDecl None ''newFoo'', GenDecl token_TYPE [''Foo''],
      FuncDecl (Some [Field [''f''] (Ident ''Foo'')]) ''Bar'', FuncDecl None ''doStuff'']
   \<and> map (name up) [FuncDecl None ''main'', FuncDecl None ''newFoo'', GenDecl token_TYPE [''Foo''],
      FuncDecl (Some [Field [''f''] (Ident ''Foo'')]) ''Bar'', FuncDecl None ''doStuff'']
   = [Inr (''main'', 10), Inr (''newFoo'', 50), Inr (''Foo.______'', 100),
      Inr (''Foo.Bar'', 100), Inr (''doStuff'', 200)]"
  by code_simp

text \<open>
  C9: \<open>splitOnDot\<close> succeeds on a name with at most one dot: without a dot it returns the
  empty receiver and the name, with one dot the part before and the part after it. It panics,
  with "too many", exactly on a name with two or more dots, that is with more than two
  dot-separated components; it has no other failure.
\<close>

theorem C9_splitOnDot:
  "(count_list s (CHR ''.'') = 0 \<longrightarrow> splitOnDot s = Inr ('''', s))
   \<and> (count_list s (CHR ''.'') = 1 \<longrightarrow>
        (\<exists>r n. s = r @ ''.'' @ n \<and> CHR ''.'' \<notin> set r \<and> CHR ''.'' \<notin> set n \<and> splitOnDot s = Inr (r, n)))
   \<and> (splitOnDot s = Inl TooMany \<longleftrightarrow> 2 < length (Split s))
   \<and> (length (Split s) = Suc (count_list s (CHR ''.'')))
   \<and> (\<forall>e. splitOnDot s = Inl e \<longrightarrow> e = TooMany)"
proof (intro conjI impI allI)
  assume "count_list s (CHR ''.'') = 0"
  then show "splitOnDot s = Inr ('''', s)"
    by (simp add: count_list_0_iff splitOnDot_no_dot)
next
  assume "count_list s (CHR ''.'') = 1"
  from one_dot_decomp [OF this] obtain r n
    where "s = r @ CHR ''.'' # n" "CHR ''.'' \<notin> set r" "CHR ''.'' \<notin> set n" by blast
  then have "s = r @ ''.'' @ n \<and> CHR ''.'' \<notin> set r \<and> CHR ''.'' \<notin> set n \<and> splitOnDot s = Inr (r, n)"
    by (simp add: splitOnDot_one_dot)
  then show "\<exists>r n. s = r @ ''.'' @ n \<and> CHR ''.'' \<notin> set r \<and> CHR ''.'' \<notin> set n \<and> splitOnDot s = Inr (r, n)"
    by blast
next
  show "splitOnDot s = Inl TooMany \<longleftrightarrow> 2 < length (Split s)"
    by (auto simp: splitOnDot_def Let_def)
next
  show "length (Split s) = Suc (count_list s (CHR ''.''))"
    by (rule length_Split)
next
  fix e assume "splitOnDot s = Inl e"
  then show "e = TooMany" by (simp add: splitOnDot_panic_iff)
qed

theorem C9_splitOnDot_witness:
  "count_list ''Foo.Bar'' (CHR ''.'') = 1
   \<and> (\<exists>r n. ''Foo.Bar'' = r @ ''.'' @ n \<and> CHR ''.'' \<notin> set r \<and> CHR ''.'' \<notin> set n
        \<and> splitOnDot ''Foo.Bar'' = Inr (r, n))
   \<and> splitOnDot ''a.b.c'' = Inl TooMany \<and> 2 < length (Split ''a.b.c'')"
proof -
  have one: "count_list ''Foo.Bar'' (CHR ''.'') = 1" by simp
  have three: "2 < length (Split ''a.b.c'')" by simp
  note A = C9_splitOnDot [of "''Foo.Bar''", THEN conjunct2, THEN conjunct1, rule_format, OF one]
  note B = C9_splitOnDot [of "''a.b.c''", THEN conjunct2, THEN conjunct2, THEN conjunct1,
      THEN iffD2, OF three]
  from one A B three show ?thesis by (intro conjI)
qed

section \<open>The sort as insertion on lists\<close>

lemma bind_Inr [simp]: "bind (Inr v) f = f v"
  by (simp add: bind_def)

lemma bind_Inl [simp]: "bind (Inl e) f = Inl e"
  by (simp add: bind_def)

lemma bind_assoc: "bind (bind m f) g = bind m (\<lambda>v. bind (f v) g)"
  by (cases m) simp_all

lemma bind_eq_Inr: "bind m f = Inr r \<longleftrightarrow> (\<exists>v. m = Inr v \<and> f v = Inr r)"
  by (cases m) simp_all

lemma bind_return [simp]: "bind m Inr = m"
  by (cases m) simp_all

lemma swap_adjacent:
  "swap (pre @ y # x # post) (Suc (length pre)) (length pre) = pre @ x # y # post"
  by (simp add: swap_def nth_append list_update_append)

lemma sink_ins:
  assumes loc: "\<And>zs j. Suc j < length zs \<Longrightarrow> lt zs (Suc j) j = c (zs ! Suc j) (zs ! j)"
  shows "sink lt 0 (rev ys @ x # post) (length ys) = bind (ins c x ys) (\<lambda>r. Inr (rev r @ post))"
proof (induction ys arbitrary: post)
  case Nil
  show ?case by simp
next
  case (Cons y ys)
  let ?zs = "rev ys @ y # x # post"
  have cmp: "lt ?zs (Suc (length ys)) (length ys) = c x y"
    using loc [of "length ys" ?zs] by (simp add: nth_append)
  have sw: "swap ?zs (Suc (length ys)) (length ys) = rev ys @ x # y # post"
    using swap_adjacent [of "rev ys" y x post] by simp
  show ?case
  proof (cases "c x y")
    case (Inl e)
    with cmp show ?thesis by simp
  next
    case (Inr b)
    with cmp sw Cons.IH [of "y # post"] show ?thesis by (simp add: bind_assoc)
  qed
qed

lemma insertionLoop_isort:
  assumes loc: "\<And>zs j. Suc j < length zs \<Longrightarrow> lt zs (Suc j) j = c (zs ! Suc j) (zs ! j)"
  shows "insertionLoop lt 0 (rev acc @ xs) [length acc ..< length acc + length xs]
         = bind (isort c acc xs) (\<lambda>r. Inr (rev r))"
proof (induction xs arbitrary: acc)
  case Nil
  show ?case by simp
next
  case (Cons x xs)
  have up: "[length acc ..< length acc + length (x # xs)]
            = length acc # [Suc (length acc) ..< Suc (length acc) + length xs]"
    by (subst upt_rec) simp
  have step: "insertionLoop lt 0 (rev r @ xs) [Suc (length acc) ..< Suc (length acc) + length xs]
              = bind (isort c r xs) (\<lambda>r. Inr (rev r))" if "ins c x acc = Inr r" for r
  proof -
    have "length r = Suc (length acc)" using that
      by (induction acc arbitrary: r) (auto simp: bind_eq_Inr split: if_splits)
    with Cons.IH [of r] show ?thesis by simp
  qed
  have "insertionLoop lt 0 (rev acc @ x # xs) [length acc ..< length acc + length (x # xs)]
        = bind (sink lt 0 (rev acc @ x # xs) (length acc))
            (\<lambda>zs. insertionLoop lt 0 zs [Suc (length acc) ..< Suc (length acc) + length xs])"
    by (subst up) simp
  also have "\<dots> = bind (ins c x acc)
            (\<lambda>r. insertionLoop lt 0 (rev r @ xs) [Suc (length acc) ..< Suc (length acc) + length xs])"
    by (simp only: sink_ins [where lt=lt and c=c, OF loc] bind_assoc bind_Inr)
  also have "\<dots> = bind (ins c x acc) (\<lambda>r. bind (isort c r xs) (\<lambda>r. Inr (rev r)))"
    by (cases "ins c x acc") (simp_all only: bind_Inl bind_Inr step)
  finally show ?case by (simp add: bind_assoc)
qed

lemma SliceStable_short:
  assumes "length xs \<le> 20"
  shows "SliceStable lt xs = insertionSort lt xs 0 (length xs)"
proof -
  have noop: "insertionSort lt ys 20 20 = Inr ys" for ys
    by (simp add: insertionSort_def)
  have tail: "blocks lt ys 20 20 20 = Inr ys" for ys
    by (subst blocks.simps) (simp add: noop)
  have "blocks lt xs 0 (length xs) 20 = insertionSort lt xs 0 (length xs)"
  proof (cases "length xs = 20")
    case True
    then show ?thesis by (subst blocks.simps) (simp add: tail noop)
  next
    case False
    with assms show ?thesis by (subst blocks.simps) simp
  qed
  moreover have "passes lt ys (length xs) 20 = Inr ys" for ys
    using assms by (subst passes.simps) simp
  ultimately show ?thesis by (simp add: SliceStable_def stable_def)
qed

lemma SliceStable_isort:
  assumes loc: "\<And>zs j. Suc j < length zs \<Longrightarrow> lt zs (Suc j) j = c (zs ! Suc j) (zs ! j)"
    and short: "length xs \<le> 20"
  shows "SliceStable lt xs = bind (isort c [] xs) (\<lambda>r. Inr (rev r))"
proof (cases xs)
  case Nil
  then show ?thesis by (simp add: SliceStable_short insertionSort_def)
next
  case (Cons x rest)
  have "insertionLoop lt 0 (rev [x] @ rest) [length [x] ..< length [x] + length rest]
        = bind (isort c [x] rest) (\<lambda>r. Inr (rev r))"
    by (rule insertionLoop_isort [where lt=lt and c=c, OF loc])
  with Cons short show ?thesis by (simp add: SliceStable_short insertionSort_def)
qed

subsection \<open>Permutation\<close>

lemma ins_mset: "ins c x ys = Inr r \<Longrightarrow> mset r = add_mset x (mset ys)"
  by (induction ys arbitrary: r) (auto simp: bind_eq_Inr split: if_splits)

lemma isort_mset: "isort c acc xs = Inr r \<Longrightarrow> mset r = mset acc + mset xs"
proof (induction xs arbitrary: acc r)
  case Nil
  then show ?case by simp
next
  case (Cons x xs)
  from Cons.prems obtain a where a: "ins c x acc = Inr a" and r: "isort c a xs = Inr r"
    by (auto simp: bind_eq_Inr)
  from Cons.IH [OF r] ins_mset [OF a] show ?case by simp
qed

subsection \<open>Entries that never compare less than one another keep their order\<close>

lemma ins_filter:
  assumes "ins c x ys = Inr r"
    and "\<And>y. P x \<Longrightarrow> P y \<Longrightarrow> y \<in> set ys \<Longrightarrow> c x y \<noteq> Inr True"
  shows "filter P r = (if P x then x # filter P ys else filter P ys)"
  using assms
proof (induction ys arbitrary: r)
  case Nil
  then show ?case by auto
next
  case (Cons y ys)
  from Cons.prems(1) obtain b where b: "c x y = Inr b" by (auto simp: bind_eq_Inr)
  show ?case
  proof (cases b)
    case False
    with b Cons.prems(1) show ?thesis by auto
  next
    case True
    with b Cons.prems(1) obtain r' where r': "ins c x ys = Inr r'" and r: "r = y # r'"
      by (auto simp: bind_eq_Inr)
    have ih: "filter P r' = (if P x then x # filter P ys else filter P ys)"
      by (rule Cons.IH [OF r']) (use Cons.prems(2) in auto)
    from Cons.prems(2) [of y] b True have "\<not> (P x \<and> P y)" by auto
    with ih r show ?thesis by auto
  qed
qed

lemma isort_filter:
  assumes "isort c acc xs = Inr r"
    and "\<And>x y. P x \<Longrightarrow> P y \<Longrightarrow> c x y \<noteq> Inr True"
  shows "filter P r = rev (filter P xs) @ filter P acc"
  using assms(1)
proof (induction xs arbitrary: acc r)
  case Nil
  then show ?case by simp
next
  case (Cons x xs)
  from Cons.prems obtain a where a: "ins c x acc = Inr a" and r: "isort c a xs = Inr r"
    by (auto simp: bind_eq_Inr)
  have "filter P a = (if P x then x # filter P acc else filter P acc)"
    by (rule ins_filter [OF a]) (use assms(2) in auto)
  with Cons.IH [OF r] show ?case by simp
qed

subsection \<open>An entry that compares less than nothing and nothing less than it stays put\<close>






section \<open>What the two comparators answer to the sort\<close>

lemma declLess_later:
  "declLess up zs (Suc j) j = later (declLess up) (zs ! Suc j) (zs ! j)"
  by (simp add: declLess_def later_def Let_def cong: if_cong)

lemma fieldLess_later:
  "fieldLess up zs (Suc j) j = later (fieldLess up) (zs ! Suc j) (zs ! j)"
  by (simp add: fieldLess_def later_def Let_def cong: if_cong)

lemma sortDecls_isort:
  "length ds \<le> 20 \<Longrightarrow>
     sortDecls up ds = bind (isort (later (declLess up)) [] ds) (\<lambda>r. Inr (rev r))"
  unfolding sortDecls_def
  by (rule SliceStable_isort [where c = "later (declLess up)"]) (rule declLess_later)

lemma sortFieldList_isort:
  "length fs \<le> 20 \<Longrightarrow>
     sortFieldList up fs = bind (isort (later (fieldLess up)) [] fs) (\<lambda>r. Inr (rev r))"
  unfolding sortFieldList_def
  by (rule SliceStable_isort [where c = "later (fieldLess up)"]) (rule fieldLess_later)


lemma sortFieldList_mset:
  "length fs \<le> 20 \<Longrightarrow> sortFieldList up fs = Inr out \<Longrightarrow> mset out = mset fs"
  by (auto simp: sortFieldList_isort bind_eq_Inr dest: isort_mset)


lemma tied_later: "tied lt x y \<Longrightarrow> later lt y x = Inr False"
  by (simp add: tied_def later_def)

lemma less_plain: "less up s t = Inr b \<Longrightarrow> plain s \<and> plain t"
  by (cases s; cases t) (simp_all add: less_def strf_def plain_def)

lemma less_not_plain: "\<not> (plain s \<and> plain t) \<Longrightarrow> less up s t = Inl TypePanic"
  by (cases s; cases t) (simp_all add: less_def strf_def plain_def)

section \<open>Anchoring, stability, and the panic on embedded members\<close>



text \<open>
  On slices of at most 20 entries, which the library sorts by insertion alone, the sort is
  stable whatever the comparator: for every class \<open>P\<close> of entries that are pairwise tied
  under the comparator, neither less than the other, the entries of the class appear in the
  output in the order they had in the input. This holds for \<open>sortDecls\<close> and for
  \<open>sortFieldList\<close>.
\<close>

lemma stable_short_slices:
  "(length ds \<le> 20 \<longrightarrow> (\<forall>x y. P x \<and> P y \<longrightarrow> tied (declLess up) x y)
      \<longrightarrow> sortDecls up ds = Inr out \<longrightarrow> filter P out = filter P ds)
   \<and> (length fs \<le> 20 \<longrightarrow> (\<forall>x y. Q x \<and> Q y \<longrightarrow> tied (fieldLess up) x y)
      \<longrightarrow> sortFieldList up fs = Inr outf \<longrightarrow> filter Q outf = filter Q fs)"
proof (intro conjI impI)
  assume l: "length ds \<le> 20"
    and t: "\<forall>x y. P x \<and> P y \<longrightarrow> tied (declLess up) x y" and s: "sortDecls up ds = Inr out"
  from s l obtain r where r: "isort (later (declLess up)) [] ds = Inr r" and out: "out = rev r"
    by (auto simp: sortDecls_isort bind_eq_Inr)
  have "later (declLess up) x y \<noteq> Inr True" if "P x" "P y" for x y
    using t that tied_later [of "declLess up" y x] by auto
  then have "filter P r = rev (filter P ds) @ filter P []"
    by (rule isort_filter [OF r])
  then have "rev (filter P r) = filter P ds" by simp
  with out show "filter P out = filter P ds" by (simp only: rev_filter)
next
  assume l: "length fs \<le> 20"
    and t: "\<forall>x y. Q x \<and> Q y \<longrightarrow> tied (fieldLess up) x y" and s: "sortFieldList up fs = Inr outf"
  from s l obtain r where r: "isort (later (fieldLess up)) [] fs = Inr r" and out: "outf = rev r"
    by (auto simp: sortFieldList_isort bind_eq_Inr)
  have "later (fieldLess up) x y \<noteq> Inr True" if "Q x" "Q y" for x y
    using t that tied_later [of "fieldLess up" y x] by auto
  then have "filter Q r = rev (filter Q fs) @ filter Q []"
    by (rule isort_filter [OF r])
  then have "rev (filter Q r) = filter Q fs" by simp
  with out show "filter Q outf = filter Q fs" by (simp only: rev_filter)
qed

lemma stable_short_slices_example:
  "tied (declLess asciiOnly) (FuncDecl None ''setValue'') (FuncDecl None ''getValue'')
   \<and> tied (declLess asciiOnly) (FuncDecl None ''getValue'') (FuncDecl None ''setValue'')
   \<and> tied (declLess asciiOnly) (FuncDecl None ''getValue'') (FuncDecl None ''getValue'')
   \<and> tied (declLess asciiOnly) (FuncDecl None ''setValue'') (FuncDecl None ''setValue'')
   \<and> sortDecls asciiOnly [FuncDecl None ''setValue'', FuncDecl None ''main'', FuncDecl None ''getValue'']
       = Inr [FuncDecl None ''main'', FuncDecl None ''setValue'', FuncDecl None ''getValue'']
   \<and> filter (\<lambda>d. d \<in> set [FuncDecl None ''setValue'', FuncDecl None ''getValue''])
        [FuncDecl None ''main'', FuncDecl None ''setValue'', FuncDecl None ''getValue'']
     = filter (\<lambda>d. d \<in> set [FuncDecl None ''setValue'', FuncDecl None ''getValue''])
        [FuncDecl None ''setValue'', FuncDecl None ''main'', FuncDecl None ''getValue'']
   \<and> tied (fieldLess asciiOnly) (Field [''Write''] OtherExpr) (Field [''Write''] OtherExpr)
   \<and> sortFieldList asciiOnly [Field [''Write''] OtherExpr, Field [] (Ident ''R''), Field [''Write''] OtherExpr]
       = Inr [Field [] (Ident ''R''), Field [''Write''] OtherExpr, Field [''Write''] OtherExpr]
   \<and> filter (\<lambda>d. d \<in> set [Field [''Write''] OtherExpr])
        [Field [] (Ident ''R''), Field [''Write''] OtherExpr, Field [''Write''] OtherExpr]
     = filter (\<lambda>d. d \<in> set [Field [''Write''] OtherExpr])
        [Field [''Write''] OtherExpr, Field [] (Ident ''R''), Field [''Write''] OtherExpr]"
proof -
  have t1: "tied (declLess asciiOnly) (FuncDecl None ''setValue'') (FuncDecl None ''getValue'')"
    by code_simp
  have t2: "tied (declLess asciiOnly) (FuncDecl None ''getValue'') (FuncDecl None ''setValue'')"
    by code_simp
  have t3: "tied (declLess asciiOnly) (FuncDecl None ''getValue'') (FuncDecl None ''getValue'')"
    by code_simp
  have t4: "tied (declLess asciiOnly) (FuncDecl None ''setValue'') (FuncDecl None ''setValue'')"
    by code_simp
  have h: "\<forall>x y. x \<in> set [FuncDecl None ''setValue'', FuncDecl None ''getValue'']
        \<and> y \<in> set [FuncDecl None ''setValue'', FuncDecl None ''getValue'']
        \<longrightarrow> tied (declLess asciiOnly) x y"
    using t1 t2 t3 t4 by auto
  have s: "sortDecls asciiOnly [FuncDecl None ''setValue'', FuncDecl None ''main'', FuncDecl None ''getValue'']
       = Inr [FuncDecl None ''main'', FuncDecl None ''setValue'', FuncDecl None ''getValue'']"
    by code_simp
  have t5: "tied (fieldLess asciiOnly) (Field [''Write''] OtherExpr) (Field [''Write''] OtherExpr)"
    by code_simp
  have g: "\<forall>x y. x \<in> set [Field [''Write''] OtherExpr] \<and> y \<in> set [Field [''Write''] OtherExpr]
        \<longrightarrow> tied (fieldLess asciiOnly) x y"
    using t5 by auto
  have f: "sortFieldList asciiOnly [Field [''Write''] OtherExpr, Field [] (Ident ''R''), Field [''Write''] OtherExpr]
       = Inr [Field [] (Ident ''R''), Field [''Write''] OtherExpr, Field [''Write''] OtherExpr]"
    by code_simp
  note A = stable_short_slices [where P = "\<lambda>d. d \<in> set [FuncDecl None ''setValue'', FuncDecl None ''getValue'']"
      and up = asciiOnly, THEN conjunct1, THEN mp, THEN mp, THEN mp, OF _ h s]
  note B = stable_short_slices [where Q = "\<lambda>d. d \<in> set [Field [''Write''] OtherExpr]"
      and up = asciiOnly, THEN conjunct2, THEN mp, THEN mp, THEN mp, OF _ g f]
  from t1 t2 t3 t4 s A t5 f B show ?thesis by (intro conjI) simp_all
qed

text \<open>
  C10: \<open>less\<close> returns an answer only if both type expressions are an identifier or a
  selector expression; if one of them has another shape it panics, and so does
  \<open>sortFieldList\<close> on the list of two embedded members with these types, for instance
  on an embedded pointer type next to an embedded identifier.
\<close>

theorem C10_embedded_panic:
  "(less up s t = Inr b \<longrightarrow> plain s \<and> plain t)
   \<and> (\<not> (plain s \<and> plain t) \<longrightarrow>
        less up s t = Inl TypePanic \<and> sortFieldList up [Field [] t, Field [] s] = Inl TypePanic)
   \<and> sortFieldList up [Field [] (StarExpr (Ident ''A'')), Field [] (Ident ''B'')] = Inl TypePanic"
proof (intro conjI impI)
  assume "less up s t = Inr b"
  then show "plain s" "plain t" by (auto dest: less_plain)
next
  assume n: "\<not> (plain s \<and> plain t)"
  then show l: "less up s t = Inl TypePanic" by (rule less_not_plain)
  then show "sortFieldList up [Field [] t, Field [] s] = Inl TypePanic"
    by (simp add: sortFieldList_isort later_def fieldLess_def)
next
  have "less up (Ident ''B'') (StarExpr (Ident ''A'')) = Inl TypePanic"
    by (rule less_not_plain) (simp add: plain_def)
  then show "sortFieldList up [Field [] (StarExpr (Ident ''A'')), Field [] (Ident ''B'')]
      = Inl TypePanic"
    by (simp add: sortFieldList_isort later_def fieldLess_def)
qed

theorem C10_embedded_panic_witness:
  "less asciiOnly (Ident ''A'') (SelectorExpr ''io'' ''Reader'') = Inr True
   \<and> plain (Ident ''A'') \<and> plain (SelectorExpr ''io'' ''Reader'')
   \<and> \<not> (plain OtherExpr \<and> plain (Ident ''A''))
   \<and> less asciiOnly OtherExpr (Ident ''A'') = Inl TypePanic
   \<and> sortFieldList asciiOnly [Field [] (Ident ''A''), Field [] OtherExpr] = Inl TypePanic"
proof -
  have a: "less asciiOnly (Ident ''A'') (SelectorExpr ''io'' ''Reader'') = Inr True" by code_simp
  have n: "\<not> (plain OtherExpr \<and> plain (Ident ''A''))" by (simp add: plain_def)
  note A = C10_embedded_panic [of asciiOnly "Ident ''A''" "SelectorExpr ''io'' ''Reader''" True,
      THEN conjunct1, rule_format, OF a]
  note B = C10_embedded_panic [of asciiOnly OtherExpr "Ident ''A''" True,
      THEN conjunct2, THEN conjunct1, rule_format, OF n]
  from a A n B show ?thesis by blast
qed

section \<open>The name comparison\<close>

lemma lesss_split:
  "splitOnDot s1 = Inr (r1, n1) \<Longrightarrow> splitOnDot s2 = Inr (r2, n2) \<Longrightarrow>
   lesss up s1 s2 = Inr (
     if r1 \<noteq> r2 then r1 < r2
     else if weightAdjustment up n1 \<noteq> weightAdjustment up n2
       then weightAdjustment up n1 < weightAdjustment up n2
     else if snd (trimCommonPrefix n1) \<noteq> '''' \<and> snd (trimCommonPrefix n2) \<noteq> ''''
       then snd (trimCommonPrefix n1) < snd (trimCommonPrefix n2)
     else fst (trimCommonPrefix n1) < fst (trimCommonPrefix n2))"
  by (simp add: lesss_def Let_def split: prod.splits)






lemma trimLoop_shape:
  "trimLoop ps s = (p, t) \<Longrightarrow>
     (p = '''' \<and> t = s \<and> (\<forall>q\<in>set ps. \<not> HasPrefix s q \<and> \<not> HasPrefix s (ToLower q)))
   \<or> (\<exists>before after. ps = before @ p # after
         \<and> (\<forall>q\<in>set before. \<not> HasPrefix s q \<and> \<not> HasPrefix s (ToLower q))
         \<and> (s = p @ t \<or> s = ToLower p @ t))"
proof (induction ps)
  case Nil
  then show ?case by simp
next
  case (Cons q ps)
  show ?case
  proof (cases "HasPrefix s q \<or> HasPrefix s (ToLower q)")
    case True
    with Cons.prems have p: "p = q" by (auto split: if_splits)
    have "s = p @ t \<or> s = ToLower p @ t"
    proof (cases "HasPrefix s q")
      case True
      with Cons.prems p have "t = drop (length p) s" "take (length p) s = p"
        by (auto simp: TrimPrefix_def HasPrefix_def)
      then have "s = p @ t" by (metis append_take_drop_id)
      then show ?thesis ..
    next
      case False
      with True Cons.prems p have "t = drop (length (ToLower p)) s"
        "take (length (ToLower p)) s = ToLower p"
        by (auto simp: TrimPrefix_def HasPrefix_def)
      then have "s = ToLower p @ t" by (metis append_take_drop_id)
      then show ?thesis ..
    qed
    with p have "q # ps = [] @ p # ps \<and> (\<forall>q\<in>set []. \<not> HasPrefix s q \<and> \<not> HasPrefix s (ToLower q))
        \<and> (s = p @ t \<or> s = ToLower p @ t)" by simp
    then show ?thesis by blast
  next
    case False
    with Cons.prems have "trimLoop ps s = (p, t)" by simp
    from Cons.IH [OF this] show ?thesis
    proof
      assume "p = '''' \<and> t = s \<and> (\<forall>q\<in>set ps. \<not> HasPrefix s q \<and> \<not> HasPrefix s (ToLower q))"
      with False show ?thesis by simp
    next
      assume "\<exists>before after. ps = before @ p # after
         \<and> (\<forall>q\<in>set before. \<not> HasPrefix s q \<and> \<not> HasPrefix s (ToLower q))
         \<and> (s = p @ t \<or> s = ToLower p @ t)"
      then obtain before after where "ps = before @ p # after"
        "\<forall>q\<in>set before. \<not> HasPrefix s q \<and> \<not> HasPrefix s (ToLower q)"
        "s = p @ t \<or> s = ToLower p @ t" by blast
      with False have "q # ps = (q # before) @ p # after
         \<and> (\<forall>q\<in>set (q # before). \<not> HasPrefix s q \<and> \<not> HasPrefix s (ToLower q))
         \<and> (s = p @ t \<or> s = ToLower p @ t)" by simp
      then show ?thesis by blast
    qed
  qed
qed

section \<open>The comparator as an ordering\<close>




section \<open>The secondary name ordering\<close>

text \<open>
  C5, as the code has it. \<open>trimCommonPrefix\<close> strips at most one prefix: the first entry of
  the list Is, Has, Get, All, Create, New, Err, Error, Init, Find, Set, Render that the name
  starts with, in exact case or all lowercase, is returned together with the rest of the name;
  a name that starts with none of them is returned whole, with an empty prefix. When the
  receiver parts and the adjusted weights of two keys tie, non-empty names that match no
  prefix are compared lexicographically on the full name.
\<close>

theorem C5_name_ordering:
  "(trimCommonPrefix s = (p, t) \<longrightarrow>
      (p = '''' \<and> t = s
         \<and> (\<forall>q\<in>set commonPrefixes. \<not> HasPrefix s q \<and> \<not> HasPrefix s (ToLower q)))
    \<or> (\<exists>before after. commonPrefixes = before @ p # after
         \<and> (\<forall>q\<in>set before. \<not> HasPrefix s q \<and> \<not> HasPrefix s (ToLower q))
         \<and> (s = p @ t \<or> s = ToLower p @ t)))
   \<and> (splitOnDot s1 = Inr (r, n1) \<and> splitOnDot s2 = Inr (r, n2)
        \<and> weightAdjustment up n1 = weightAdjustment up n2
        \<and> trimCommonPrefix n1 = ('''', n1) \<and> trimCommonPrefix n2 = ('''', n2)
        \<and> n1 \<noteq> '''' \<and> n2 \<noteq> ''''
      \<longrightarrow> lesss up s1 s2 = Inr (n1 < n2))
   \<and> commonPrefixes = [''Is'', ''Has'', ''Get'', ''All'', ''Create'', ''New'', ''Err'', ''Error'',
        ''Init'', ''Find'', ''Set'', ''Render'']"
proof (intro conjI impI)
  assume "trimCommonPrefix s = (p, t)"
  then have "trimLoop commonPrefixes s = (p, t)" by (simp add: trimCommonPrefix_def)
  then show "(p = '''' \<and> t = s
         \<and> (\<forall>q\<in>set commonPrefixes. \<not> HasPrefix s q \<and> \<not> HasPrefix s (ToLower q)))
    \<or> (\<exists>before after. commonPrefixes = before @ p # after
         \<and> (\<forall>q\<in>set before. \<not> HasPrefix s q \<and> \<not> HasPrefix s (ToLower q))
         \<and> (s = p @ t \<or> s = ToLower p @ t))"
    by (rule trimLoop_shape)
next
  assume h: "splitOnDot s1 = Inr (r, n1) \<and> splitOnDot s2 = Inr (r, n2)
        \<and> weightAdjustment up n1 = weightAdjustment up n2
        \<and> trimCommonPrefix n1 = ('''', n1) \<and> trimCommonPrefix n2 = ('''', n2)
        \<and> n1 \<noteq> '''' \<and> n2 \<noteq> ''''"
  then have a: "splitOnDot s1 = Inr (r, n1)" and b: "splitOnDot s2 = Inr (r, n2)" by simp_all
  from h show "lesss up s1 s2 = Inr (n1 < n2)"
    by (simp add: lesss_split [OF a b])
next
  show "commonPrefixes = [''Is'', ''Has'', ''Get'', ''All'', ''Create'', ''New'', ''Err'', ''Error'',
        ''Init'', ''Find'', ''Set'', ''Render'']"
    by (rule commonPrefixes_def)
qed

theorem C5_name_ordering_witness:
  "trimCommonPrefix ''getValue'' = (''Get'', ''Value'')
   \<and> ((''Get'' = '''' \<and> ''Value'' = ''getValue''
         \<and> (\<forall>q\<in>set commonPrefixes. \<not> HasPrefix ''getValue'' q \<and> \<not> HasPrefix ''getValue'' (ToLower q)))
    \<or> (\<exists>before after. commonPrefixes = before @ ''Get'' # after
         \<and> (\<forall>q\<in>set before. \<not> HasPrefix ''getValue'' q \<and> \<not> HasPrefix ''getValue'' (ToLower q))
         \<and> (''getValue'' = ''Get'' @ ''Value'' \<or> ''getValue'' = ToLower ''Get'' @ ''Value'')))
   \<and> splitOnDot ''Foo.bar'' = Inr (''Foo'', ''bar'') \<and> splitOnDot ''Foo.baz'' = Inr (''Foo'', ''baz'')
   \<and> weightAdjustment asciiOnly ''bar'' = weightAdjustment asciiOnly ''baz''
   \<and> trimCommonPrefix ''bar'' = ('''', ''bar'') \<and> trimCommonPrefix ''baz'' = ('''', ''baz'')
   \<and> ''bar'' \<noteq> '''' \<and> ''baz'' \<noteq> ''''
   \<and> lesss asciiOnly ''Foo.bar'' ''Foo.baz'' = Inr (''bar'' < ''baz'')"
proof -
  have g: "trimCommonPrefix ''getValue'' = (''Get'', ''Value'')" by code_simp
  have h: "splitOnDot ''Foo.bar'' = Inr (''Foo'', ''bar'') \<and> splitOnDot ''Foo.baz'' = Inr (''Foo'', ''baz'')
   \<and> weightAdjustment asciiOnly ''bar'' = weightAdjustment asciiOnly ''baz''
   \<and> trimCommonPrefix ''bar'' = ('''', ''bar'') \<and> trimCommonPrefix ''baz'' = ('''', ''baz'')
   \<and> ''bar'' \<noteq> '''' \<and> ''baz'' \<noteq> ''''" by code_simp
  note A = C5_name_ordering [of "''getValue''" "''Get''" "''Value''", THEN conjunct1, THEN mp, OF g]
  note B = C5_name_ordering [of _ _ _ "''Foo.bar''" "''Foo''" "''bar''" "''Foo.baz''" "''baz''" asciiOnly,
      THEN conjunct2, THEN conjunct1, THEN mp, OF h]
  from g A h B show ?thesis by blast
qed

theorem C5_counterexample:
  "sortDecls asciiOnly [FuncDecl None ''setValue'', FuncDecl None ''getValue'']
     = Inr [FuncDecl None ''setValue'', FuncDecl None ''getValue'']
   \<and> lesss asciiOnly ''getValue'' ''setValue'' = Inr False
   \<and> trimCommonPrefix ''getz'' = (''Get'', ''z'') \<and> trimCommonPrefix ''hello'' = ('''', ''hello'')
   \<and> lesss asciiOnly ''getz'' ''hello'' = Inr False \<and> lesss asciiOnly ''hello'' ''getz'' = Inr True"
  by code_simp

section \<open>Insertion keeps a list sorted by any key the comparator agrees with\<close>






section \<open>Declarations: the key the comparator agrees with\<close>









section \<open>Declarations that are neither functions nor types\<close>




section \<open>Interface members\<close>










section \<open>A type and its methods\<close>











section \<open>Slices of 21 entries: one block of 20 and one merge\<close>

lemma insertionSort_in_order:
  assumes "list_all (\<lambda>j. lt xs (Suc j) j = Inr False) [0 ..< b - 1]"
  shows "insertionSort lt xs 0 b = Inr xs"
proof -
  have s: "sink lt 0 xs i = Inr xs" if "i \<in> set [Suc 0 ..< b]" for i
  proof (cases i)
    case 0
    then show ?thesis by simp
  next
    case (Suc j)
    with that have "j \<in> set [0 ..< b - 1]" by auto
    with assms have "lt xs (Suc j) j = Inr False" by (simp add: list_all_iff)
    with Suc show ?thesis by simp
  qed
  have "insertionLoop lt 0 xs is = Inr xs" if "set is \<subseteq> set [Suc 0 ..< b]" for "is"
    using that by (induction "is") (simp_all add: s)
  then show ?thesis by (simp add: insertionSort_def)
qed

lemma SliceStable_21:
  assumes "length xs = 21"
  shows "SliceStable lt xs = bind (insertionSort lt xs 0 20)
     (\<lambda>ys. bind (searchLow lt ys 20 0 20) (\<lambda>i. Inr (shiftDown ys 20 i)))"
proof -
  have noop: "insertionSort lt ys 20 21 = Inr ys" for ys
    by (simp add: insertionSort_def)
  have tail: "blocks lt ys 20 21 20 = Inr ys" for ys
    by (subst blocks.simps) (simp add: noop)
  have b: "blocks lt xs 0 21 20 = insertionSort lt xs 0 20"
    by (subst blocks.simps) (simp add: tail noop)
  have m: "symMerge lt ys 0 20 21 = bind (searchLow lt ys 20 0 20) (\<lambda>i. Inr (shiftDown ys 20 i))"
    for ys by (subst symMerge.simps) simp
  have mb: "mergeBlocks lt ys 0 21 20 = symMerge lt ys 0 20 21" for ys
    by (subst mergeBlocks.simps) simp
  have last: "passes lt ys 21 40 = Inr ys" for ys
    by (subst passes.simps) simp
  have p: "passes lt ys 21 20 = symMerge lt ys 0 20 21" for ys
    by (subst passes.simps) (simp add: mb last)
  from assms show ?thesis by (simp add: SliceStable_def stable_def b p m)
qed

lemma searchLow_True:
  "i < j \<Longrightarrow> lt xs m ((i + j) div 2) = Inr True \<Longrightarrow>
     searchLow lt xs m i j = searchLow lt xs m i ((i + j) div 2)"
  by (subst searchLow.simps) (simp add: Let_def)

lemma searchLow_False:
  "i < j \<Longrightarrow> lt xs m ((i + j) div 2) = Inr False \<Longrightarrow>
     searchLow lt xs m i j = searchLow lt xs m ((i + j) div 2 + 1) j"
  by (subst searchLow.simps) (simp add: Let_def)

lemma searchLow_done: "searchLow lt xs m i i = Inr i"
  by (subst searchLow.simps) simp

lemma searchLow_probes_20:
  assumes "lt xs 20 10 = Inr True" and "lt xs 20 5 = Inr True" and "lt xs 20 2 = Inr True"
    and "lt xs 20 1 = Inr True" and "lt xs 20 0 = Inr True"
  shows "searchLow lt xs 20 0 20 = Inr 0"
proof -
  have "searchLow lt xs 20 0 20 = searchLow lt xs 20 0 10"
    using searchLow_True [of 0 20 lt xs 20] assms(1) by simp
  also have "\<dots> = searchLow lt xs 20 0 5"
    using searchLow_True [of 0 10 lt xs 20] assms(2) by simp
  also have "\<dots> = searchLow lt xs 20 0 2"
    using searchLow_True [of 0 5 lt xs 20] assms(3) by simp
  also have "\<dots> = searchLow lt xs 20 0 1"
    using searchLow_True [of 0 2 lt xs 20] assms(4) by simp
  also have "\<dots> = searchLow lt xs 20 0 0"
    using searchLow_True [of 0 1 lt xs 20] assms(5) by simp
  finally show ?thesis by (simp add: searchLow_done)
qed

lemma sort_21_front:
  assumes "length xs = 21"
    and "list_all (\<lambda>j. lt xs (Suc j) j = Inr False) [0 ..< 19]"
    and "lt xs 20 10 = Inr True" and "lt xs 20 5 = Inr True" and "lt xs 20 2 = Inr True"
    and "lt xs 20 1 = Inr True" and "lt xs 20 0 = Inr True"
  shows "SliceStable lt xs = Inr (shiftDown xs 20 0)"
proof -
  have "insertionSort lt xs 0 20 = Inr xs"
    by (rule insertionSort_in_order) (use assms(2) in simp)
  moreover have "searchLow lt xs 20 0 20 = Inr 0"
    by (rule searchLow_probes_20) (fact assms)+
  ultimately show ?thesis by (simp add: SliceStable_21 [OF assms(1)])
qed

text \<open>
  C4, on a slice of more than 20 entries. Twenty-one functions without receiver, named
  \<open>a\<close> to \<open>s\<close>, \<open>get\<close> and \<open>getValue\<close>, in this order: \<open>get\<close> and \<open>getValue\<close>
  are tied under the comparator, yet the sort moves \<open>getValue\<close>, the last entry, to the front,
  ahead of \<open>get\<close>. The first twenty entries are a block already in order; the merge of the
  last entry into it places \<open>getValue\<close> by binary search against the entries \<open>k\<close>,
  \<open>f\<close>, \<open>c\<close>, \<open>b\<close> and \<open>a\<close>, each of which it compares less than.
\<close>

theorem C4_long_slice:
  "tied (declLess asciiOnly) (FuncDecl None ''get'') (FuncDecl None ''getValue'')
   \<and> sortDecls asciiOnly
       [FuncDecl None ''a'', FuncDecl None ''b'', FuncDecl None ''c'', FuncDecl None ''d'',
        FuncDecl None ''e'', FuncDecl None ''f'', FuncDecl None ''g'', FuncDecl None ''h'',
        FuncDecl None ''i'', FuncDecl None ''j'', FuncDecl None ''k'', FuncDecl None ''l'',
        FuncDecl None ''m'', FuncDecl None ''n'', FuncDecl None ''o'', FuncDecl None ''p'',
        FuncDecl None ''q'', FuncDecl None ''r'', FuncDecl None ''s'', FuncDecl None ''get'',
        FuncDecl None ''getValue'']
     = Inr
       [FuncDecl None ''getValue'',
        FuncDecl None ''a'', FuncDecl None ''b'', FuncDecl None ''c'', FuncDecl None ''d'',
        FuncDecl None ''e'', FuncDecl None ''f'', FuncDecl None ''g'', FuncDecl None ''h'',
        FuncDecl None ''i'', FuncDecl None ''j'', FuncDecl None ''k'', FuncDecl None ''l'',
        FuncDecl None ''m'', FuncDecl None ''n'', FuncDecl None ''o'', FuncDecl None ''p'',
        FuncDecl None ''q'', FuncDecl None ''r'', FuncDecl None ''s'', FuncDecl None ''get'']"
proof -
  let ?ds = "[FuncDecl None ''a'', FuncDecl None ''b'', FuncDecl None ''c'', FuncDecl None ''d'',
        FuncDecl None ''e'', FuncDecl None ''f'', FuncDecl None ''g'', FuncDecl None ''h'',
        FuncDecl None ''i'', FuncDecl None ''j'', FuncDecl None ''k'', FuncDecl None ''l'',
        FuncDecl None ''m'', FuncDecl None ''n'', FuncDecl None ''o'', FuncDecl None ''p'',
        FuncDecl None ''q'', FuncDecl None ''r'', FuncDecl None ''s'', FuncDecl None ''get'',
        FuncDecl None ''getValue'']"
  have t: "tied (declLess asciiOnly) (FuncDecl None ''get'') (FuncDecl None ''getValue'')"
    by code_simp
  have l: "length ?ds = 21" by simp
  have o: "list_all (\<lambda>j. declLess asciiOnly ?ds (Suc j) j = Inr False) [0 ..< 19]"
    by (simp add: upt_rec declLess_later) code_simp
  have c10: "declLess asciiOnly ?ds 20 10 = Inr True" by code_simp
  have c5: "declLess asciiOnly ?ds 20 5 = Inr True" by code_simp
  have c2: "declLess asciiOnly ?ds 20 2 = Inr True" by code_simp
  have c1: "declLess asciiOnly ?ds 20 1 = Inr True" by code_simp
  have c0: "declLess asciiOnly ?ds 20 0 = Inr True" by code_simp
  have "sortDecls asciiOnly ?ds = Inr (shiftDown ?ds 20 0)"
    unfolding sortDecls_def
    by (rule sort_21_front [where lt = "declLess asciiOnly" and xs = ?ds, OF l o c10 c5 c2 c1 c0])
  also have "shiftDown ?ds 20 0 =
       [FuncDecl None ''getValue'',
        FuncDecl None ''a'', FuncDecl None ''b'', FuncDecl None ''c'', FuncDecl None ''d'',
        FuncDecl None ''e'', FuncDecl None ''f'', FuncDecl None ''g'', FuncDecl None ''h'',
        FuncDecl None ''i'', FuncDecl None ''j'', FuncDecl None ''k'', FuncDecl None ''l'',
        FuncDecl None ''m'', FuncDecl None ''n'', FuncDecl None ''o'', FuncDecl None ''p'',
        FuncDecl None ''q'', FuncDecl None ''r'', FuncDecl None ''s'', FuncDecl None ''get'']"
    by (simp add: shiftDown_def swap_def upt_rec)
  finally show ?thesis using t by simp
qed


end
